theory Spec2Isabelle
  imports Main
begin

section \<open>Errors\<close>

text \<open>
  The exceptions that \<^verbatim>\<open>transpose.py\<close> can raise, one constructor per raise site.
  The two \<^verbatim>\<open>raise ValueError\<close> statements of \<^verbatim>\<open>transpose_musicxml\<close> are
  \<open>ValueError_no_source_key\<close> and \<open>ValueError_target_key\<close> (the latter carries the
  value that the message prints). A dictionary subscript with a missing key raises
  \<^verbatim>\<open>KeyError(key)\<close>: on \<^verbatim>\<open>KEY_SIGNATURES\<close>, on \<^verbatim>\<open>base_notes\<close>, and on
  \<^verbatim>\<open>sharp_map\<close>/\<^verbatim>\<open>flat_map\<close>. \<^verbatim>\<open>int(text)\<close> raises \<^verbatim>\<open>ValueError\<close> on a text
  that is no integer literal and \<^verbatim>\<open>TypeError\<close> on \<^verbatim>\<open>None\<close>. \<open>ParseError\<close> stands
  for every failure of \<^verbatim>\<open>ET.parse\<close> (no such file, not XML).
\<close>

datatype error =
    ValueError_no_source_key
  | ValueError_target_key int
  | KeyError_key_signature int
  | KeyError_base_note "string option"
  | KeyError_spelling int
  | ValueError_int
  | TypeError_int
  | ParseError

text \<open>The Python class of each error: is it a \<^verbatim>\<open>ValueError\<close>, is it a \<^verbatim>\<open>KeyError\<close>.\<close>

fun is_ValueError :: "error \<Rightarrow> bool" where
  "is_ValueError ValueError_no_source_key = True"
| "is_ValueError (ValueError_target_key k) = True"
| "is_ValueError ValueError_int = True"
| "is_ValueError e = False"

fun is_KeyError :: "error \<Rightarrow> bool" where
  "is_KeyError (KeyError_key_signature k) = True"
| "is_KeyError (KeyError_base_note s) = True"
| "is_KeyError (KeyError_spelling c) = True"
| "is_KeyError e = False"

section \<open>Pitch algebra\<close>

text \<open>
  \<^verbatim>\<open>KEY_SIGNATURES\<close>: fifths to (tonic letter, accidental kind, accidental count).
  The accidental kind is \<^verbatim>\<open>'sharp'\<close>, \<^verbatim>\<open>'flat'\<close> or \<^verbatim>\<open>None\<close>.
\<close>

definition KEY_SIGNATURES :: "int \<rightharpoonup> (string \<times> string option \<times> int)" where
  "KEY_SIGNATURES = map_of
     [(-7, (''C'', Some ''flat'', 7)),
      (-6, (''G'', Some ''flat'', 6)),
      (-5, (''D'', Some ''flat'', 5)),
      (-4, (''A'', Some ''flat'', 4)),
      (-3, (''E'', Some ''flat'', 3)),
      (-2, (''B'', Some ''flat'', 2)),
      (-1, (''F'', None, 1)),
      (0, (''C'', None, 0)),
      (1, (''G'', None, 1)),
      (2, (''D'', None, 2)),
      (3, (''A'', None, 3)),
      (4, (''E'', None, 4)),
      (5, (''B'', None, 5)),
      (6, (''F'', Some ''sharp'', 6)),
      (7, (''C'', Some ''sharp'', 7))]"

definition base_notes :: "string \<rightharpoonup> int" where
  "base_notes = map_of
     [(''C'', 0), (''D'', 2), (''E'', 4), (''F'', 5), (''G'', 7), (''A'', 9), (''B'', 11)]"

text \<open>
  \<^verbatim>\<open>note_to_chromatic(step, alter)\<close>. The step is the text of a \<^verbatim>\<open>step\<close> element,
  which is \<^verbatim>\<open>None\<close> for an element without text; \<^verbatim>\<open>base_notes[step]\<close> raises
  \<^verbatim>\<open>KeyError\<close> for every step that is not one of the seven letters. Python's \<^verbatim>\<open>%\<close>
  with a positive modulus is the floor modulus, as \<open>mod\<close> on \<open>int\<close>.
\<close>

definition note_to_chromatic :: "string option \<Rightarrow> int \<Rightarrow> error + int" where
  "note_to_chromatic step alter =
     (case step of
        None \<Rightarrow> Inl (KeyError_base_note None)
      | Some s \<Rightarrow>
          (case base_notes s of
             None \<Rightarrow> Inl (KeyError_base_note step)
           | Some b \<Rightarrow> Inr ((b + alter) mod 12)))"

definition naturals :: "int \<rightharpoonup> string" where
  "naturals = map_of
     [(0, ''C''), (2, ''D''), (4, ''E''), (5, ''F''), (7, ''G''), (9, ''A''), (11, ''B'')]"

definition sharp_map :: "int \<rightharpoonup> (string \<times> int)" where
  "sharp_map = map_of
     [(1, (''C'', 1)), (3, (''D'', 1)), (6, (''F'', 1)), (8, (''G'', 1)), (10, (''A'', 1))]"

definition flat_map :: "int \<rightharpoonup> (string \<times> int)" where
  "flat_map = map_of
     [(1, (''D'', -1)), (3, (''E'', -1)), (6, (''G'', -1)), (8, (''A'', -1)), (10, (''B'', -1))]"

text \<open>
  \<^verbatim>\<open>chromatic_to_note(chromatic_index, prefer_sharps)\<close>: the index is reduced modulo
  12, looked up among the naturals, and otherwise in the sharp or the flat table.
\<close>

definition chromatic_to_note :: "int \<Rightarrow> bool \<Rightarrow> error + (string \<times> int)" where
  "chromatic_to_note chromatic_index prefer_sharps =
     (let ci = chromatic_index mod 12 in
      case naturals ci of
        Some letter \<Rightarrow> Inr (letter, 0)
      | None \<Rightarrow>
          if prefer_sharps
          then (case sharp_map ci of None \<Rightarrow> Inl (KeyError_spelling ci) | Some r \<Rightarrow> Inr r)
          else (case flat_map ci of None \<Rightarrow> Inl (KeyError_spelling ci) | Some r \<Rightarrow> Inr r))"

text \<open>
  The conditional expression of lines 86--87 and 89--90:
  \<^verbatim>\<open>1 if kind == 'sharp' else -1 if kind == 'flat' else 0\<close>.
\<close>

definition key_alter :: "string option \<Rightarrow> int" where
  "key_alter kind =
     (if kind = Some ''sharp'' then 1 else if kind = Some ''flat'' then -1 else 0)"

text \<open>
  \<^verbatim>\<open>calculate_semitone_shift(from_key, to_key)\<close>. Both keys are subscripts of
  \<^verbatim>\<open>KEY_SIGNATURES\<close>, the source key first.
\<close>

definition calculate_semitone_shift :: "int \<Rightarrow> int \<Rightarrow> error + int" where
  "calculate_semitone_shift from_key to_key =
     (case KEY_SIGNATURES from_key of
        None \<Rightarrow> Inl (KeyError_key_signature from_key)
      | Some (from_letter, from_kind, from_count) \<Rightarrow>
     (case note_to_chromatic (Some from_letter) (key_alter from_kind) of
        Inl e \<Rightarrow> Inl e
      | Inr from_tonic \<Rightarrow>
     (case KEY_SIGNATURES to_key of
        None \<Rightarrow> Inl (KeyError_key_signature to_key)
      | Some (to_letter, to_kind, to_count) \<Rightarrow>
     (case note_to_chromatic (Some to_letter) (key_alter to_kind) of
        Inl e \<Rightarrow> Inl e
      | Inr to_tonic \<Rightarrow> Inr ((to_tonic - from_tonic) mod 12)))))"

section \<open>The score document\<close>

text \<open>
  The text of an element that the code reads with \<^verbatim>\<open>int(...)\<close> and writes with
  \<^verbatim>\<open>str(...)\<close>: \<open>NoText\<close> is a falsy text (\<^verbatim>\<open>None\<close>, which is what the parser gives
  an empty element), \<open>IntText n\<close> a text on which \<^verbatim>\<open>int\<close> returns \<open>n\<close> (and
  \<^verbatim>\<open>str(n)\<close> is one), \<open>BadText\<close> any other text, on which \<^verbatim>\<open>int\<close> raises
  \<^verbatim>\<open>ValueError\<close>.
\<close>

datatype num_text = NoText | IntText int | BadText

definition py_int :: "num_text \<Rightarrow> error + int" where
  "py_int t = (case t of NoText \<Rightarrow> Inl TypeError_int | IntText n \<Rightarrow> Inr n | BadText \<Rightarrow> Inl ValueError_int)"

text \<open>
  The children of a \<^verbatim>\<open>pitch\<close> element, in document order: \<^verbatim>\<open>step\<close>, \<^verbatim>\<open>alter\<close>
  and \<^verbatim>\<open>octave\<close> elements with their text, and elements of any other tag. A pitch
  element is the list of its children; nothing constrains their number or order.
\<close>

datatype child = Step "string option" | Alter num_text | Octave num_text | Other string

type_synonym pitch = "child list"

text \<open>\<^verbatim>\<open>pitch_elem.find(tag)\<close>: the first child with that tag, or \<^verbatim>\<open>None\<close>.\<close>

fun find_step :: "pitch \<Rightarrow> string option option" where
  "find_step [] = None"
| "find_step (Step t # cs) = Some t"
| "find_step (c # cs) = find_step cs"

fun find_alter :: "pitch \<Rightarrow> num_text option" where
  "find_alter [] = None"
| "find_alter (Alter t # cs) = Some t"
| "find_alter (c # cs) = find_alter cs"

fun find_octave :: "pitch \<Rightarrow> num_text option" where
  "find_octave [] = None"
| "find_octave (Octave t # cs) = Some t"
| "find_octave (c # cs) = find_octave cs"

text \<open>
  Assignments to \<^verbatim>\<open>step.text\<close>, \<^verbatim>\<open>octave.text\<close> and \<^verbatim>\<open>alter.text\<close>: the element
  assigned to is the one that \<^verbatim>\<open>find\<close> returned, the first of its tag.
\<close>

fun set_step :: "string option \<Rightarrow> pitch \<Rightarrow> pitch" where
  "set_step t [] = []"
| "set_step t (Step u # cs) = Step t # cs"
| "set_step t (c # cs) = c # set_step t cs"

fun set_alter :: "num_text \<Rightarrow> pitch \<Rightarrow> pitch" where
  "set_alter t [] = []"
| "set_alter t (Alter u # cs) = Alter t # cs"
| "set_alter t (c # cs) = c # set_alter t cs"

fun set_octave :: "num_text \<Rightarrow> pitch \<Rightarrow> pitch" where
  "set_octave t [] = []"
| "set_octave t (Octave u # cs) = Octave t # cs"
| "set_octave t (c # cs) = c # set_octave t cs"

text \<open>\<^verbatim>\<open>pitch_elem.remove(alter)\<close> for the \<^verbatim>\<open>alter\<close> child that \<^verbatim>\<open>find\<close> returned.\<close>

fun remove_alter :: "pitch \<Rightarrow> pitch" where
  "remove_alter [] = []"
| "remove_alter (Alter u # cs) = cs"
| "remove_alter (c # cs) = c # remove_alter cs"

text \<open>
  \<^verbatim>\<open>pitch_elem.insert(index, child)\<close> is \<^verbatim>\<open>list.insert\<close> on the children: the new
  child comes before the child now at \<open>index\<close>, or last when there is none.
\<close>

definition insert_child :: "nat \<Rightarrow> child \<Rightarrow> pitch \<Rightarrow> pitch" where
  "insert_child i c cs = take i cs @ c # drop i cs"

text \<open>
  Line 143: \<^verbatim>\<open>int(alter.text) if alter is not None and alter.text else 0\<close>, on the
  result of \<^verbatim>\<open>find\<close>.
\<close>

definition current_alter_of :: "num_text option \<Rightarrow> error + int" where
  "current_alter_of alter =
     (case alter of None \<Rightarrow> Inr 0 | Some NoText \<Rightarrow> Inr 0 | Some t \<Rightarrow> py_int t)"

text \<open>
  The body of the loop over the pitch elements (lines 136--174). A pitch without a
  \<^verbatim>\<open>step\<close> or without an \<^verbatim>\<open>octave\<close> child is left as it is. An exception leaves the
  function, so the result is the error. \<^verbatim>\<open>//\<close> is floor division, as \<open>div\<close> on
  \<open>int\<close>. Creating the \<^verbatim>\<open>alter\<close> element appends it, removes it again and inserts
  it at index 1; its text is set last.
\<close>

definition transpose_pitch :: "int \<Rightarrow> bool \<Rightarrow> pitch \<Rightarrow> error + pitch" where
  "transpose_pitch semitone_shift prefer_sharps pitch_elem =
     (case (find_step pitch_elem, find_octave pitch_elem) of
        (Some current_step, Some octave_text) \<Rightarrow>
          (case current_alter_of (find_alter pitch_elem) of
             Inl e \<Rightarrow> Inl e
           | Inr current_alter \<Rightarrow>
          (case py_int octave_text of
             Inl e \<Rightarrow> Inl e
           | Inr current_octave \<Rightarrow>
          (case note_to_chromatic current_step current_alter of
             Inl e \<Rightarrow> Inl e
           | Inr chromatic_value \<Rightarrow>
             (let new_chromatic = (chromatic_value + semitone_shift) mod 12;
                  octave_shift = (chromatic_value + semitone_shift) div 12;
                  new_octave = current_octave + octave_shift
              in case chromatic_to_note new_chromatic prefer_sharps of
                   Inl e \<Rightarrow> Inl e
                 | Inr (new_step, new_alter) \<Rightarrow>
                     (let written = set_octave (IntText new_octave)
                                      (set_step (Some new_step) pitch_elem)
                      in Inr (if new_alter = 0
                              then (case find_alter pitch_elem of
                                      Some t \<Rightarrow> remove_alter written
                                    | None \<Rightarrow> written)
                              else (case find_alter pitch_elem of
                                      None \<Rightarrow> insert_child 1 (Alter (IntText new_alter)) written
                                    | Some t \<Rightarrow> set_alter (IntText new_alter) written)))))))
      | _ \<Rightarrow> Inr pitch_elem)"

text \<open>The loop over all pitch elements, in document order; the first exception ends it.\<close>

fun transpose_pitches :: "int \<Rightarrow> bool \<Rightarrow> pitch list \<Rightarrow> error + pitch list" where
  "transpose_pitches semitone_shift prefer_sharps [] = Inr []"
| "transpose_pitches semitone_shift prefer_sharps (p # ps) =
     (case transpose_pitch semitone_shift prefer_sharps p of
        Inl e \<Rightarrow> Inl e
      | Inr p' \<Rightarrow>
          (case transpose_pitches semitone_shift prefer_sharps ps of
             Inl e \<Rightarrow> Inl e
           | Inr ps' \<Rightarrow> Inr (p' # ps')))"

text \<open>
  A \<^verbatim>\<open>key\<close> element is the list of its children: \<^verbatim>\<open>fifths\<close> elements with their
  text, and others. Lines 128--131 overwrite the text of the first \<^verbatim>\<open>fifths\<close> child of
  every \<^verbatim>\<open>key\<close> element.
\<close>

datatype key_child = Fifths num_text | Key_other string

type_synonym key_elem = "key_child list"

fun set_fifths :: "num_text \<Rightarrow> key_elem \<Rightarrow> key_elem" where
  "set_fifths t [] = []"
| "set_fifths t (Fifths u # cs) = Fifths t # cs"
| "set_fifths t (c # cs) = c # set_fifths t cs"

text \<open>
  The parsed document, as far as the function looks at it: the \<^verbatim>\<open>key\<close> elements and the
  \<^verbatim>\<open>pitch\<close> elements that \<^verbatim>\<open>root.findall\<close> returns, in document order.
\<close>

record document =
  key_elems :: "key_elem list"
  pitch_elems :: "pitch list"

definition transpose_tree :: "int \<Rightarrow> int \<Rightarrow> bool \<Rightarrow> document \<Rightarrow> error + document" where
  "transpose_tree target_key semitone_shift prefer_sharps tree =
     (case transpose_pitches semitone_shift prefer_sharps (pitch_elems tree) of
        Inl e \<Rightarrow> Inl e
      | Inr ps \<Rightarrow>
          Inr \<lparr>key_elems = map (set_fifths (IntText target_key)) (key_elems tree),
               pitch_elems = ps\<rparr>)"

section \<open>The transposition of a file\<close>

record MusicXMLFile =
  file_path :: string
  key_signature :: "int option"
  time_signature :: "(int \<times> int) option"
  part_name :: "string option"

text \<open>
  The two operations of \<^verbatim>\<open>pathlib\<close> that the default output path uses are parameters
  of the model: \<open>stem\<close> is \<^verbatim>\<open>Path(p).stem\<close> and \<open>with_name p n\<close> is
  \<^verbatim>\<open>str(Path(p).with_name(n))\<close>.
\<close>

record pathlib =
  stem :: "string \<Rightarrow> string"
  with_name :: "string \<Rightarrow> string \<Rightarrow> string"

text \<open>Lines 177--181, for a target key that is in the table.\<close>

definition default_output_path :: "pathlib \<Rightarrow> string \<Rightarrow> int \<Rightarrow> error + string" where
  "default_output_path pl path target_key =
     (case KEY_SIGNATURES target_key of
        None \<Rightarrow> Inl (KeyError_key_signature target_key)
      | Some (letter, kind, count) \<Rightarrow>
          Inr (with_name pl path (stem pl path @ ''_transposed_to_'' @ letter @ ''.xml'')))"

text \<open>
  \<^verbatim>\<open>transpose_musicxml(music_file, target_key, output_path)\<close>. The file system is a map
  from paths to the documents that \<^verbatim>\<open>ET.parse\<close> reads there; \<^verbatim>\<open>tree.write\<close> stores the
  rewritten document at the output path. The result is the returned path and the file
  system after the call. The checks come in the order of the source: the source key is
  present, the target key is in the table, the shift is computed (which subscripts the
  table with the source key), the file is parsed, the document is rewritten, the output
  path is chosen, the file is written.
\<close>

definition transpose_musicxml ::
  "pathlib \<Rightarrow> (string \<rightharpoonup> document) \<Rightarrow> MusicXMLFile \<Rightarrow> int \<Rightarrow> string option
     \<Rightarrow> error + (string \<times> (string \<rightharpoonup> document))" where
  "transpose_musicxml pl fs music_file target_key output_path =
     (case key_signature music_file of
        None \<Rightarrow> Inl ValueError_no_source_key
      | Some source_key \<Rightarrow>
          if KEY_SIGNATURES target_key = None then Inl (ValueError_target_key target_key)
          else
            (case calculate_semitone_shift source_key target_key of
               Inl e \<Rightarrow> Inl e
             | Inr semitone_shift \<Rightarrow>
            (case fs (file_path music_file) of
               None \<Rightarrow> Inl ParseError
             | Some tree \<Rightarrow>
            (case transpose_tree target_key semitone_shift (0 \<le> target_key) tree of
               Inl e \<Rightarrow> Inl e
             | Inr tree' \<Rightarrow>
            (case (case output_path of
                     None \<Rightarrow> default_output_path pl (file_path music_file) target_key
                   | Some p \<Rightarrow> Inr p) of
               Inl e \<Rightarrow> Inl e
             | Inr out \<Rightarrow> Inr (out, fs(out \<mapsto> tree')))))))"

section \<open>Notions used to state the properties\<close>

text \<open>
  The base offsets and the tonic class of a key-table entry as the specification words
  them: the tonic letter's base offset, plus 1 for the accidental kind sharp, minus 1 for
  flat, unchanged for none. It is compared below with what \<open>calculate_semitone_shift\<close>
  computes.
\<close>

definition base_offset_spec :: "string \<rightharpoonup> int" where
  "base_offset_spec letter =
     (if letter = ''C'' then Some 0 else if letter = ''D'' then Some 2
      else if letter = ''E'' then Some 4 else if letter = ''F'' then Some 5
      else if letter = ''G'' then Some 7 else if letter = ''A'' then Some 9
      else if letter = ''B'' then Some 11 else None)"

definition tonic_class_spec :: "string \<times> string option \<times> int \<Rightarrow> int option" where
  "tonic_class_spec entry =
     (case entry of (letter, kind, count) \<Rightarrow>
        (case base_offset_spec letter of
           None \<Rightarrow> None
         | Some b \<Rightarrow>
             Some (b + (case kind of
                          None \<Rightarrow> 0
                        | Some k \<Rightarrow> if k = ''sharp'' then 1 else if k = ''flat'' then -1 else 0))))"

text \<open>
  What the rewriter reads off a pitch element: the text of its first \<^verbatim>\<open>step\<close>, the
  value of its first \<^verbatim>\<open>alter\<close> (0 when there is none or it has no text) and the
  value of its first \<^verbatim>\<open>octave\<close>; \<open>None\<close> when a child is missing or a number does
  not read. \<open>single_alter\<close> says that a pitch has at most one \<^verbatim>\<open>alter\<close> child, as
  the schema of the format requires.
\<close>

fun is_alter :: "child \<Rightarrow> bool" where
  "is_alter (Alter t) = True"
| "is_alter c = False"

definition single_alter :: "pitch \<Rightarrow> bool" where
  "single_alter p = (length (filter is_alter p) \<le> 1)"

definition read_pitch :: "pitch \<Rightarrow> (string option \<times> int \<times> int) option" where
  "read_pitch p =
     (case (find_step p, find_octave p) of
        (Some s, Some ot) \<Rightarrow>
          (case (current_alter_of (find_alter p), py_int ot) of
             (Inr a, Inr oc) \<Rightarrow> Some (s, a, oc)
           | _ \<Rightarrow> None)
      | _ \<Rightarrow> None)"

section \<open>Properties of the pitch algebra\<close>

lemma int_range_keys: "-7 \<le> (k::int) \<Longrightarrow> k \<le> 7 \<Longrightarrow> k \<in> {-7,-6,-5,-4,-3,-2,-1,0,1,2,3,4,5,6,7}"
  by simp presburger

lemma KEY_SIGNATURES_dom: "(KEY_SIGNATURES k \<noteq> None) = (-7 \<le> k \<and> k \<le> 7)"
proof
  assume "KEY_SIGNATURES k \<noteq> None"
  then show "-7 \<le> k \<and> k \<le> 7"
    by (simp add: KEY_SIGNATURES_def split: if_splits)
next
  assume "-7 \<le> k \<and> k \<le> 7"
  then have "k \<in> {-7,-6,-5,-4,-3,-2,-1,0,1,2,3,4,5,6,7}" using int_range_keys by blast
  then show "KEY_SIGNATURES k \<noteq> None"
    by (elim insertE emptyE; simp add: KEY_SIGNATURES_def)
qed

lemma key_tonic:
  assumes "KEY_SIGNATURES k = Some (letter, kind, count)"
  shows "\<exists>c. tonic_class_spec (letter, kind, count) = Some c
           \<and> note_to_chromatic (Some letter) (key_alter kind) = Inr (c mod 12)"
proof -
  from assms have "KEY_SIGNATURES k \<noteq> None" by simp
  then have "k \<in> {-7,-6,-5,-4,-3,-2,-1,0,1,2,3,4,5,6,7}"
    using int_range_keys KEY_SIGNATURES_dom by blast
  then show ?thesis using assms
    by (elim insertE emptyE;
        clarsimp simp: KEY_SIGNATURES_def tonic_class_spec_def base_offset_spec_def
          note_to_chromatic_def base_notes_def key_alter_def)
qed

lemma int_range_12: "0 \<le> (c::int) \<Longrightarrow> c \<le> 11 \<Longrightarrow> c \<in> {0,1,2,3,4,5,6,7,8,9,10,11}"
  by simp presburger

lemma chromatic_to_note_mod:
  "chromatic_to_note n p = chromatic_to_note (n mod 12) p"
  by (simp add: chromatic_to_note_def)

lemma chromatic_to_note_range:
  assumes "0 \<le> c" "c \<le> 11"
  shows "\<exists>l a. chromatic_to_note c p = Inr (l, a) \<and> a \<in> {-1, 0, 1}
           \<and> note_to_chromatic (Some l) a = Inr c
           \<and> (c \<in> {0, 2, 4, 5, 7, 9, 11} \<longrightarrow> a = 0 \<and> base_notes l = Some c)"
proof -
  from assms have "c \<in> {0,1,2,3,4,5,6,7,8,9,10,11}" by (rule int_range_12)
  then show ?thesis
    by (elim insertE emptyE; cases p;
        simp add: chromatic_to_note_def naturals_def sharp_map_def flat_map_def
          note_to_chromatic_def base_notes_def)
qed

lemma chromatic_to_note_Inr:
  "\<exists>l a. chromatic_to_note n p = Inr (l, a) \<and> a \<in> {-1, 0, 1}
       \<and> note_to_chromatic (Some l) a = Inr (n mod 12)"
proof -
  have "0 \<le> n mod 12" "n mod 12 \<le> 11" by simp_all
  from chromatic_to_note_range[OF this, of p] show ?thesis
    using chromatic_to_note_mod[of n p] by auto
qed

lemma calculate_semitone_shift_valid:
  assumes "KEY_SIGNATURES a \<noteq> None" and "KEY_SIGNATURES b \<noteq> None"
  shows "\<exists>fa fb ta tb. KEY_SIGNATURES a = Some fa \<and> KEY_SIGNATURES b = Some fb
           \<and> tonic_class_spec fa = Some ta \<and> tonic_class_spec fb = Some tb
           \<and> calculate_semitone_shift a b = Inr ((tb - ta) mod 12)"
proof -
  from assms obtain al ak an bl bk bn where
    e: "KEY_SIGNATURES a = Some (al, ak, an)" "KEY_SIGNATURES b = Some (bl, bk, bn)"
    by auto
  from key_tonic[OF e(1)] obtain ta where
    ta: "tonic_class_spec (al, ak, an) = Some ta"
        "note_to_chromatic (Some al) (key_alter ak) = Inr (ta mod 12)" by blast
  from key_tonic[OF e(2)] obtain tb where
    tb: "tonic_class_spec (bl, bk, bn) = Some tb"
        "note_to_chromatic (Some bl) (key_alter bk) = Inr (tb mod 12)" by blast
  have "calculate_semitone_shift a b = Inr ((tb mod 12 - ta mod 12) mod 12)"
    using e ta(2) tb(2) by (simp add: calculate_semitone_shift_def)
  then have "calculate_semitone_shift a b = Inr ((tb - ta) mod 12)"
    by (simp add: mod_diff_eq)
  with e ta(1) tb(1) show ?thesis by simp
qed

text \<open>
  Claim C4. For two keys of the key-signature table, \<open>calculate_semitone_shift\<close> returns
  the difference of the two tonic classes modulo 12, the tonic class being the tonic
  letter's base offset plus 1 for sharp, minus 1 for flat and unchanged for none, and the
  returned value is at least 0 and at most 11.
\<close>

theorem semitone_shift_is_tonic_difference:
  assumes "KEY_SIGNATURES fromKey = Some fromEntry" and "KEY_SIGNATURES toKey = Some toEntry"
  shows "\<exists>fromTonicClass toTonicClass shift.
           tonic_class_spec fromEntry = Some fromTonicClass
         \<and> tonic_class_spec toEntry = Some toTonicClass
         \<and> calculate_semitone_shift fromKey toKey = Inr shift
         \<and> shift = (toTonicClass - fromTonicClass) mod 12
         \<and> 0 \<le> shift \<and> shift \<le> 11"
proof -
  from assms have "KEY_SIGNATURES fromKey \<noteq> None" "KEY_SIGNATURES toKey \<noteq> None"
    by simp_all
  from calculate_semitone_shift_valid[OF this] assms show ?thesis
    by auto
qed

theorem semitone_shift_is_tonic_difference_witness:
  "KEY_SIGNATURES (-7) = Some (''C'', Some ''flat'', 7)
   \<and> KEY_SIGNATURES 2 = Some (''D'', None, 2)
   \<and> tonic_class_spec (''C'', Some ''flat'', 7) = Some (-1)
   \<and> tonic_class_spec (''D'', None, 2) = Some 2
   \<and> calculate_semitone_shift (-7) 2 = Inr 3"
proof -
  have a: "KEY_SIGNATURES (-7) = Some (''C'', Some ''flat'', 7)"
    by (simp add: KEY_SIGNATURES_def)
  have b: "KEY_SIGNATURES 2 = Some (''D'', None, 2)"
    by (simp add: KEY_SIGNATURES_def)
  have c: "tonic_class_spec (''C'', Some ''flat'', 7) = Some (-1)"
    by (simp add: tonic_class_spec_def base_offset_spec_def)
  have d: "tonic_class_spec (''D'', None, 2) = Some 2"
    by (simp add: tonic_class_spec_def base_offset_spec_def)
  from semitone_shift_is_tonic_difference[OF a b] c d
  have "calculate_semitone_shift (-7) 2 = Inr 3" by auto
  with a b c d show ?thesis by simp
qed

text \<open>
  Claim C6. For every chromatic class from 0 to 11 and either value of the flag,
  \<open>chromatic_to_note\<close> returns a letter and an alteration among -1, 0 and 1 that
  \<open>note_to_chromatic\<close> maps back to the class; for the seven natural classes the
  alteration is 0 and the letter is the one whose base offset is the class, whatever the
  flag.
\<close>

theorem chromatic_to_note_right_inverse:
  assumes "0 \<le> c" and "c \<le> 11"
  shows "\<exists>letter alteration.
           chromatic_to_note c preferSharps = Inr (letter, alteration)
         \<and> alteration \<in> {-1, 0, 1}
         \<and> note_to_chromatic (Some letter) alteration = Inr c
         \<and> (c \<in> {0, 2, 4, 5, 7, 9, 11} \<longrightarrow>
               alteration = 0 \<and> base_notes letter = Some c
             \<and> chromatic_to_note c (\<not> preferSharps) = Inr (letter, alteration))"
proof -
  from chromatic_to_note_range[OF assms, of preferSharps] obtain l a where
    r: "chromatic_to_note c preferSharps = Inr (l, a)" "a \<in> {-1, 0, 1}"
       "note_to_chromatic (Some l) a = Inr c"
       "c \<in> {0, 2, 4, 5, 7, 9, 11} \<longrightarrow> a = 0 \<and> base_notes l = Some c"
    by blast
  have "chromatic_to_note c (\<not> preferSharps) = Inr (l, a)" if "c \<in> {0, 2, 4, 5, 7, 9, 11}"
    using that r(1)
    by (elim insertE emptyE; simp add: chromatic_to_note_def naturals_def)
  with r show ?thesis by blast
qed

theorem chromatic_to_note_right_inverse_witness:
  "(0::int) \<le> 6 \<and> (6::int) \<le> 11
   \<and> chromatic_to_note 6 False = Inr (''G'', -1)
   \<and> note_to_chromatic (Some ''G'') (-1) = Inr 6
   \<and> chromatic_to_note 4 True = Inr (''E'', 0)
   \<and> chromatic_to_note 4 False = Inr (''E'', 0)"
proof -
  have g: "chromatic_to_note 6 False = Inr (''G'', -1)"
    by (simp add: chromatic_to_note_def naturals_def flat_map_def)
  from chromatic_to_note_right_inverse[of 6 False] g
  have "note_to_chromatic (Some ''G'') (-1) = Inr 6" by simp
  moreover from chromatic_to_note_right_inverse[of 4 True]
  have "chromatic_to_note 4 True = Inr (''E'', 0) \<and> chromatic_to_note 4 False = Inr (''E'', 0)"
    by (auto simp: base_notes_def split: if_splits)
  ultimately show ?thesis using g by simp
qed

text \<open>
  Claim C10. \<open>chromatic_to_note\<close> is total over the integers: its argument is reduced
  modulo 12 before any table is looked up, so the result for \<open>n\<close> is the result for
  \<open>n mod 12\<close>, and it is never a lookup failure.
\<close>

theorem chromatic_to_note_total:
  "chromatic_to_note n p = chromatic_to_note (n mod 12) p
   \<and> (\<exists>letter alteration. chromatic_to_note n p = Inr (letter, alteration))"
proof -
  from chromatic_to_note_Inr[of n p] obtain l a where "chromatic_to_note n p = Inr (l, a)"
    by blast
  then show ?thesis using chromatic_to_note_mod[of n p] by simp
qed

section \<open>Properties of the rewriting of a pitch element\<close>

lemma find_step_set_step: "find_step (set_step t p) = (if find_step p = None then None else Some t)"
  by (induction t p rule: set_step.induct) auto

lemma find_step_set_octave: "find_step (set_octave t p) = find_step p"
  by (induction t p rule: set_octave.induct) auto

lemma find_step_set_alter: "find_step (set_alter t p) = find_step p"
  by (induction t p rule: set_alter.induct) auto

lemma find_step_remove_alter: "find_step (remove_alter p) = find_step p"
  by (induction p rule: remove_alter.induct) auto

lemma find_step_append:
  "find_step (xs @ ys) = (case find_step xs of None \<Rightarrow> find_step ys | Some t \<Rightarrow> Some t)"
  by (induction xs rule: find_step.induct) auto

lemma find_step_insert_alter: "find_step (insert_child i (Alter t) p) = find_step p"
  using find_step_append[of "take i p" "drop i p"]
  by (simp add: insert_child_def find_step_append split: option.split)

lemma find_octave_set_step: "find_octave (set_step t p) = find_octave p"
  by (induction t p rule: set_step.induct) auto

lemma find_octave_set_octave:
  "find_octave (set_octave t p) = (if find_octave p = None then None else Some t)"
  by (induction t p rule: set_octave.induct) auto

lemma find_octave_set_alter: "find_octave (set_alter t p) = find_octave p"
  by (induction t p rule: set_alter.induct) auto

lemma find_octave_remove_alter: "find_octave (remove_alter p) = find_octave p"
  by (induction p rule: remove_alter.induct) auto

lemma find_octave_append:
  "find_octave (xs @ ys) = (case find_octave xs of None \<Rightarrow> find_octave ys | Some t \<Rightarrow> Some t)"
  by (induction xs rule: find_octave.induct) auto

lemma find_octave_insert_alter: "find_octave (insert_child i (Alter t) p) = find_octave p"
  using find_octave_append[of "take i p" "drop i p"]
  by (simp add: insert_child_def find_octave_append split: option.split)

lemma find_alter_set_step: "find_alter (set_step t p) = find_alter p"
  by (induction t p rule: set_step.induct) auto

lemma find_alter_set_octave: "find_alter (set_octave t p) = find_alter p"
  by (induction t p rule: set_octave.induct) auto

lemma find_alter_set_alter:
  "find_alter (set_alter t p) = (if find_alter p = None then None else Some t)"
  by (induction t p rule: set_alter.induct) auto

lemma find_alter_None: "(find_alter p = None) = (filter is_alter p = [])"
  by (induction p rule: find_alter.induct) auto

lemma find_alter_remove_alter: "single_alter p \<Longrightarrow> find_alter (remove_alter p) = None"
  by (induction p rule: remove_alter.induct) (auto simp: single_alter_def find_alter_None)



lemma alters_set_step: "filter is_alter (set_step t p) = filter is_alter p"
  by (induction t p rule: set_step.induct) auto

lemma alters_set_octave: "filter is_alter (set_octave t p) = filter is_alter p"
  by (induction t p rule: set_octave.induct) auto




lemmas find_after_write =
  find_step_set_step find_step_set_octave find_step_set_alter find_step_remove_alter
  find_step_insert_alter find_octave_set_step find_octave_set_octave find_octave_set_alter
  find_octave_remove_alter find_octave_insert_alter find_alter_set_step find_alter_set_octave
  find_alter_set_alter

lemma read_pitch_SomeD:
  assumes "read_pitch p = Some (s, a, oc)"
  shows "\<exists>ot. find_step p = Some s \<and> find_octave p = Some ot
           \<and> current_alter_of (find_alter p) = Inr a \<and> py_int ot = Inr oc"
  using assms by (auto simp: read_pitch_def split: option.splits sum.splits)

lemma note_to_chromatic_range:
  "note_to_chromatic s a = Inr pc \<Longrightarrow> 0 \<le> pc \<and> pc \<le> 11"
  by (auto simp: note_to_chromatic_def split: option.splits)

lemma transpose_pitch_rewritten:
  assumes "read_pitch p = Some (s, a, oc)" and "note_to_chromatic s a = Inr pc"
    and "chromatic_to_note ((pc + sh) mod 12) pf = Inr (l, al)"
  shows "transpose_pitch sh pf p =
           Inr (let written = set_octave (IntText (oc + (pc + sh) div 12)) (set_step (Some l) p)
                in if al = 0
                   then (case find_alter p of Some t \<Rightarrow> remove_alter written | None \<Rightarrow> written)
                   else (case find_alter p of
                           None \<Rightarrow> insert_child 1 (Alter (IntText al)) written
                         | Some t \<Rightarrow> set_alter (IntText al) written))"
proof -
  from read_pitch_SomeD[OF assms(1)] obtain ot where
    "find_step p = Some s" "find_octave p = Some ot"
    "current_alter_of (find_alter p) = Inr a" "py_int ot = Inr oc" by blast
  then show ?thesis using assms(2,3)
    by (simp add: transpose_pitch_def Let_def)
qed




lemma carry_range:
  assumes "0 \<le> (pc::int)" "pc \<le> 11" "0 \<le> sh" "sh \<le> 11"
  shows "(pc + sh) div 12 = 0 \<or> (pc + sh) div 12 = 1"
proof -
  from assms have "0 \<le> pc + sh" "pc + sh < 24" by simp_all
  then have "0 \<le> (pc + sh) div 12" "(pc + sh) div 12 < 2"
    by (simp_all add: pos_imp_zdiv_nonneg_iff div_less_iff_less_mult)
  then show ?thesis by arith
qed

lemma transpose_pitch_written:
  assumes "read_pitch p = Some (s, a, oc)" and "note_to_chromatic s a = Inr pc"
    and "chromatic_to_note ((pc + sh) mod 12) pf = Inr (l, al)"
    and "transpose_pitch sh pf p = Inr p'"
  shows "find_step p' = Some (Some l) \<and> find_octave p' = Some (IntText (oc + (pc + sh) div 12))"
proof -
  from read_pitch_SomeD[OF assms(1)] obtain ot where f:
    "find_step p = Some s" "find_octave p = Some ot" by blast
  let ?w = "set_octave (IntText (oc + (pc + sh) div 12)) (set_step (Some l) p)"
  have w: "find_step ?w = Some (Some l)" "find_octave ?w = Some (IntText (oc + (pc + sh) div 12))"
    using f by (simp_all add: find_after_write)
  from transpose_pitch_rewritten[OF assms(1-3)] assms(4)
  have p': "p' = (if al = 0
                   then (case find_alter p of Some t \<Rightarrow> remove_alter ?w | None \<Rightarrow> ?w)
                   else (case find_alter p of
                           None \<Rightarrow> insert_child 1 (Alter (IntText al)) ?w
                         | Some t \<Rightarrow> set_alter (IntText al) ?w))"
    by (simp add: Let_def)
  show ?thesis
    unfolding p' using w
    by (simp add: find_step_remove_alter find_octave_remove_alter find_step_insert_alter
          find_octave_insert_alter find_step_set_alter find_octave_set_alter
        split: option.split)
qed

text \<open>
  Claim C5. For a pitch that reads as a class \<open>pc\<close> (always between 0 and 11) and a shift
  between 0 and 11, the rewriter spells the class \<open>(pc + shift) mod 12\<close>, the carry
  \<open>(pc + shift) div 12\<close> is 0 or 1, and the octave written back is the octave read plus
  the carry.
\<close>

theorem octave_carry:
  assumes "read_pitch p = Some (letter, alteration, octave)"
    and "note_to_chromatic letter alteration = Inr pc"
    and "0 \<le> shift" and "shift \<le> 11"
  shows "0 \<le> pc \<and> pc \<le> 11
       \<and> ((pc + shift) div 12 = 0 \<or> (pc + shift) div 12 = 1)
       \<and> (\<exists>newLetter newAlteration p'.
             transpose_pitch shift preferSharps p = Inr p'
           \<and> chromatic_to_note ((pc + shift) mod 12) preferSharps = Inr (newLetter, newAlteration)
           \<and> note_to_chromatic (Some newLetter) newAlteration = Inr ((pc + shift) mod 12)
           \<and> find_step p' = Some (Some newLetter)
           \<and> find_octave p' = Some (IntText (octave + (pc + shift) div 12)))"
proof -
  from note_to_chromatic_range[OF assms(2)] have r: "0 \<le> pc" "pc \<le> 11" by simp_all
  from carry_range[OF r assms(3,4)] have c: "(pc + shift) div 12 = 0 \<or> (pc + shift) div 12 = 1" .
  from chromatic_to_note_Inr[of "(pc + shift) mod 12" preferSharps] obtain l al where
    n: "chromatic_to_note ((pc + shift) mod 12) preferSharps = Inr (l, al)"
       "note_to_chromatic (Some l) al = Inr ((pc + shift) mod 12)" by auto
  from transpose_pitch_rewritten[OF assms(1,2) n(1)] obtain p' where
    p': "transpose_pitch shift preferSharps p = Inr p'" by blast
  from transpose_pitch_written[OF assms(1,2) n(1) p'] p' n r c show ?thesis by blast
qed

theorem octave_carry_witness:
  "read_pitch [Step (Some ''B''), Octave (IntText 4)] = Some (Some ''B'', 0, 4)
   \<and> note_to_chromatic (Some ''B'') 0 = Inr 11
   \<and> (0::int) \<le> 2 \<and> (2::int) \<le> 11
   \<and> transpose_pitch 2 True [Step (Some ''B''), Octave (IntText 4)]
       = Inr [Step (Some ''C''), Alter (IntText 1), Octave (IntText 5)]"
proof -
  have a: "read_pitch [Step (Some ''B''), Octave (IntText 4)] = Some (Some ''B'', 0, 4)"
    by (simp add: read_pitch_def current_alter_of_def py_int_def)
  have b: "note_to_chromatic (Some ''B'') 0 = Inr 11"
    by (simp add: note_to_chromatic_def base_notes_def)
  have c: "(0::int) \<le> 2" "(2::int) \<le> 11" by simp_all
  from octave_carry[OF a b c, of True] obtain p' where
    "transpose_pitch 2 True [Step (Some ''B''), Octave (IntText 4)] = Inr p'" by blast
  moreover have "transpose_pitch 2 True [Step (Some ''B''), Octave (IntText 4)]
       = Inr [Step (Some ''C''), Alter (IntText 1), Octave (IntText 5)]"
    by (simp add: transpose_pitch_def current_alter_of_def py_int_def note_to_chromatic_def
          base_notes_def chromatic_to_note_def naturals_def sharp_map_def insert_child_def)
  ultimately show ?thesis using a b by simp
qed

lemma alters_remove_alter_tl: "filter is_alter (remove_alter p) = tl (filter is_alter p)"
  by (induction p rule: remove_alter.induct) auto

lemma alters_set_alter_hd:
  "filter is_alter (set_alter t p) =
     (if filter is_alter p = [] then [] else Alter t # tl (filter is_alter p))"
  by (induction t p rule: set_alter.induct) auto

text \<open>
  What the rewriter does to the \<^verbatim>\<open>alter\<close> children of any pitch that it rewrites,
  whatever the order and number of its children: a natural result removes the first
  \<^verbatim>\<open>alter\<close> child, another result overwrites the text of the first \<^verbatim>\<open>alter\<close> child
  or, when there is none, inserts a new one at index 1 of the children.
\<close>

lemma alter_marker_general:
  assumes "read_pitch p = Some (letter, alteration, octave)"
    and "note_to_chromatic letter alteration = Inr pc"
    and "chromatic_to_note ((pc + shift) mod 12) preferSharps = Inr (newLetter, newAlteration)"
  shows "\<exists>p'. transpose_pitch shift preferSharps p = Inr p'
       \<and> (newAlteration = 0 \<longrightarrow>
             filter is_alter p' = tl (filter is_alter p)
           \<and> (single_alter p \<longrightarrow> find_alter p' = None))
       \<and> (newAlteration \<noteq> 0 \<and> find_alter p \<noteq> None \<longrightarrow>
             find_alter p' = Some (IntText newAlteration)
           \<and> filter is_alter p' = Alter (IntText newAlteration) # tl (filter is_alter p))
       \<and> (newAlteration \<noteq> 0 \<and> find_alter p = None \<longrightarrow>
             p' = insert_child 1 (Alter (IntText newAlteration))
                    (set_octave (IntText (octave + (pc + shift) div 12))
                       (set_step (Some newLetter) p))
           \<and> (\<forall>t cs. p = Step t # cs \<longrightarrow>
                 p' = Step (Some newLetter) # Alter (IntText newAlteration)
                        # set_octave (IntText (octave + (pc + shift) div 12)) cs
               \<and> find_octave (set_octave (IntText (octave + (pc + shift) div 12)) cs)
                   = Some (IntText (octave + (pc + shift) div 12))))"
proof -
  let ?w = "set_octave (IntText (octave + (pc + shift) div 12)) (set_step (Some newLetter) p)"
  have w: "find_alter ?w = find_alter p" "filter is_alter ?w = filter is_alter p"
    by (simp_all add: find_after_write alters_set_step alters_set_octave)
  from read_pitch_SomeD[OF assms(1)] obtain ot where f:
    "find_step p = Some letter" "find_octave p = Some ot" by blast
  define p' where "p' =
            (if newAlteration = 0
             then (case find_alter p of Some t \<Rightarrow> remove_alter ?w | None \<Rightarrow> ?w)
             else (case find_alter p of
                     None \<Rightarrow> insert_child 1 (Alter (IntText newAlteration)) ?w
                   | Some t \<Rightarrow> set_alter (IntText newAlteration) ?w))"
  have run: "transpose_pitch shift preferSharps p = Inr p'"
    using transpose_pitch_rewritten[OF assms] by (simp add: Let_def p'_def)
  have zero: "filter is_alter p' = tl (filter is_alter p)
            \<and> (single_alter p \<longrightarrow> find_alter p' = None)" if "newAlteration = 0"
  proof (cases "find_alter p")
    case None
    then have "filter is_alter p = []" by (simp add: find_alter_None)
    with that None w show ?thesis by (simp add: p'_def)
  next
    case (Some t)
    have "single_alter p \<longrightarrow> find_alter (remove_alter ?w) = None"
      using w(2) find_alter_remove_alter[of ?w] by (simp add: single_alter_def)
    with that Some w show ?thesis by (simp add: p'_def alters_remove_alter_tl)
  qed
  have over: "find_alter p' = Some (IntText newAlteration)
            \<and> filter is_alter p' = Alter (IntText newAlteration) # tl (filter is_alter p)"
    if "newAlteration \<noteq> 0" "find_alter p \<noteq> None"
  proof -
    from that(2) have "filter is_alter p \<noteq> []" by (simp add: find_alter_None)
    with that w show ?thesis
      by (auto simp: p'_def find_alter_set_alter alters_set_alter_hd)
  qed
  have ins: "p' = insert_child 1 (Alter (IntText newAlteration)) ?w
           \<and> (\<forall>t cs. p = Step t # cs \<longrightarrow>
                 p' = Step (Some newLetter) # Alter (IntText newAlteration)
                        # set_octave (IntText (octave + (pc + shift) div 12)) cs
               \<and> find_octave (set_octave (IntText (octave + (pc + shift) div 12)) cs)
                   = Some (IntText (octave + (pc + shift) div 12)))"
    if "newAlteration \<noteq> 0" "find_alter p = None"
  proof -
    have a: "p' = insert_child 1 (Alter (IntText newAlteration)) ?w"
      using that by (simp add: p'_def)
    have "p' = Step (Some newLetter) # Alter (IntText newAlteration)
                        # set_octave (IntText (octave + (pc + shift) div 12)) cs
               \<and> find_octave (set_octave (IntText (octave + (pc + shift) div 12)) cs)
                   = Some (IntText (octave + (pc + shift) div 12))" if p: "p = Step t # cs" for t cs
    proof -
      from f(2) p have "find_octave cs \<noteq> None" by simp
      then have "find_octave (set_octave (IntText (octave + (pc + shift) div 12)) cs)
                   = Some (IntText (octave + (pc + shift) div 12))"
        by (simp add: find_octave_set_octave)
      moreover have "insert_child 1 (Alter (IntText newAlteration)) ?w
                      = Step (Some newLetter) # Alter (IntText newAlteration)
                        # set_octave (IntText (octave + (pc + shift) div 12)) cs"
        using p by (simp add: insert_child_def)
      with a have "p' = Step (Some newLetter) # Alter (IntText newAlteration)
                        # set_octave (IntText (octave + (pc + shift) div 12)) cs"
        by (rule trans)
      ultimately show ?thesis by blast
    qed
    with a show ?thesis by blast
  qed
  show ?thesis
  proof (rule exI[of _ p'], intro conjI impI)
    show "transpose_pitch shift preferSharps p = Inr p'" by (rule run)
  next
    assume "newAlteration = 0"
    from zero[OF this] show "filter is_alter p' = tl (filter is_alter p)" by (rule conjunct1)
  next
    assume "newAlteration = 0" "single_alter p"
    with zero show "find_alter p' = None" by simp
  next
    assume "newAlteration \<noteq> 0 \<and> find_alter p \<noteq> None"
    with over show "find_alter p' = Some (IntText newAlteration)" by simp
  next
    assume "newAlteration \<noteq> 0 \<and> find_alter p \<noteq> None"
    with over show "filter is_alter p' = Alter (IntText newAlteration) # tl (filter is_alter p)"
      by simp
  next
    assume "newAlteration \<noteq> 0 \<and> find_alter p = None"
    with ins show "p' = insert_child 1 (Alter (IntText newAlteration)) ?w" by simp
  next
    assume "newAlteration \<noteq> 0 \<and> find_alter p = None"
    then have "newAlteration \<noteq> 0" "find_alter p = None" by simp_all
    from ins[OF this]
    show "\<forall>t cs. p = Step t # cs \<longrightarrow>
                 p' = Step (Some newLetter) # Alter (IntText newAlteration)
                        # set_octave (IntText (octave + (pc + shift) div 12)) cs
               \<and> find_octave (set_octave (IntText (octave + (pc + shift) div 12)) cs)
                   = Some (IntText (octave + (pc + shift) div 12))"
      by (rule conjunct2)
  qed
qed

lemma length_set_step: "length (set_step t p) = length p"
  by (induction t p rule: set_step.induct) auto

lemma length_set_octave: "length (set_octave t p) = length p"
  by (induction t p rule: set_octave.induct) auto

lemma length_set_alter: "length (set_alter t p) = length p"
  by (induction t p rule: set_alter.induct) auto

lemma single_alter_alters:
  "single_alter p \<Longrightarrow> find_alter p = Some u \<Longrightarrow> tl (filter is_alter p) = []"
  by (cases "filter is_alter p") (auto simp: single_alter_def)


text \<open>
  Claim C7. For a pitch element that the rewriter rewrites, with its children as the
  format has them (the \<^verbatim>\<open>step\<close> child first, at most one \<^verbatim>\<open>alter\<close> child): when the
  new alteration is 0, no \<^verbatim>\<open>alter\<close> child is left; when it is not 0 and there was no
  \<^verbatim>\<open>alter\<close> child, one is created right after the \<^verbatim>\<open>step\<close> child and before the
  \<^verbatim>\<open>octave\<close> child, with the new alteration as its text; when it is not 0 and there
  was an \<^verbatim>\<open>alter\<close> child, its text is overwritten and no child is added. In
  particular a pitch that lands on class 0 ends as the letter C with no \<^verbatim>\<open>alter\<close>
  child.
\<close>

theorem alter_marker_maintained:
  assumes "p = Step t # cs" and "single_alter p"
    and "read_pitch p = Some (letter, alteration, octave)"
    and "note_to_chromatic letter alteration = Inr pc"
    and "chromatic_to_note ((pc + shift) mod 12) preferSharps = Inr (newLetter, newAlteration)"
  shows "\<exists>p'. transpose_pitch shift preferSharps p = Inr p'
       \<and> find_step p' = Some (Some newLetter)
       \<and> (newAlteration = 0 \<longrightarrow> filter is_alter p' = [] \<and> find_alter p' = None)
       \<and> (newAlteration \<noteq> 0 \<and> find_alter p = None \<longrightarrow>
             p' = Step (Some newLetter) # Alter (IntText newAlteration)
                    # set_octave (IntText (octave + (pc + shift) div 12)) cs
           \<and> find_octave (set_octave (IntText (octave + (pc + shift) div 12)) cs)
               = Some (IntText (octave + (pc + shift) div 12))
           \<and> filter is_alter p' = [Alter (IntText newAlteration)])
       \<and> (newAlteration \<noteq> 0 \<and> find_alter p \<noteq> None \<longrightarrow>
             find_alter p' = Some (IntText newAlteration)
           \<and> filter is_alter p' = [Alter (IntText newAlteration)]
           \<and> length p' = length p)
       \<and> ((pc + shift) mod 12 = 0 \<longrightarrow>
             newLetter = ''C'' \<and> find_step p' = Some (Some ''C'') \<and> filter is_alter p' = [])"
proof -
  from alter_marker_general[OF assms(3,4,5)] obtain p' where g:
    "transpose_pitch shift preferSharps p = Inr p'"
    "newAlteration = 0 \<longrightarrow>
       filter is_alter p' = tl (filter is_alter p) \<and> (single_alter p \<longrightarrow> find_alter p' = None)"
    "newAlteration \<noteq> 0 \<and> find_alter p \<noteq> None \<longrightarrow>
       find_alter p' = Some (IntText newAlteration)
     \<and> filter is_alter p' = Alter (IntText newAlteration) # tl (filter is_alter p)"
    "newAlteration \<noteq> 0 \<and> find_alter p = None \<longrightarrow>
       p' = insert_child 1 (Alter (IntText newAlteration))
              (set_octave (IntText (octave + (pc + shift) div 12)) (set_step (Some newLetter) p))
     \<and> (\<forall>t cs. p = Step t # cs \<longrightarrow>
           p' = Step (Some newLetter) # Alter (IntText newAlteration)
                  # set_octave (IntText (octave + (pc + shift) div 12)) cs
         \<and> find_octave (set_octave (IntText (octave + (pc + shift) div 12)) cs)
             = Some (IntText (octave + (pc + shift) div 12)))"
    by blast
  have st: "find_step p' = Some (Some newLetter)"
    using transpose_pitch_written[OF assms(3,4,5) g(1)] by simp
  have zero: "filter is_alter p' = [] \<and> find_alter p' = None" if z: "newAlteration = 0"
  proof -
    from g(2) z assms(2) have n: "find_alter p' = None" by blast
    then show ?thesis by (simp add: find_alter_None)
  qed
  have ins: "p' = Step (Some newLetter) # Alter (IntText newAlteration)
                    # set_octave (IntText (octave + (pc + shift) div 12)) cs
           \<and> find_octave (set_octave (IntText (octave + (pc + shift) div 12)) cs)
               = Some (IntText (octave + (pc + shift) div 12))
           \<and> filter is_alter p' = [Alter (IntText newAlteration)]"
    if h: "newAlteration \<noteq> 0 \<and> find_alter p = None"
  proof -
    from g(4) h assms(1) have a:
      "p' = Step (Some newLetter) # Alter (IntText newAlteration)
              # set_octave (IntText (octave + (pc + shift) div 12)) cs"
      "find_octave (set_octave (IntText (octave + (pc + shift) div 12)) cs)
         = Some (IntText (octave + (pc + shift) div 12))" by blast+
    from h assms(1) have "filter is_alter cs = []" by (simp add: find_alter_None)
    then have "filter is_alter p' = [Alter (IntText newAlteration)]"
      unfolding a(1) by (simp add: alters_set_octave)
    with a show ?thesis by blast
  qed
  have over: "find_alter p' = Some (IntText newAlteration)
           \<and> filter is_alter p' = [Alter (IntText newAlteration)]
           \<and> length p' = length p"
    if h: "newAlteration \<noteq> 0 \<and> find_alter p \<noteq> None"
  proof -
    from h obtain u where u: "find_alter p = Some u" by blast
    from g(3) h single_alter_alters[OF assms(2) u] have a:
      "find_alter p' = Some (IntText newAlteration)"
      "filter is_alter p' = [Alter (IntText newAlteration)]" by simp_all
    from transpose_pitch_rewritten[OF assms(3,4,5)] g(1) h u
    have "p' = set_alter (IntText newAlteration)
                 (set_octave (IntText (octave + (pc + shift) div 12)) (set_step (Some newLetter) p))"
      by (simp add: Let_def)
    then have "length p' = length p"
      by (simp add: length_set_alter length_set_octave length_set_step)
    with a show ?thesis by blast
  qed
  have c0: "newLetter = ''C'' \<and> newAlteration = 0" if "(pc + shift) mod 12 = 0"
    using assms(5) that by (simp add: chromatic_to_note_def naturals_def)
  show ?thesis
  proof (rule exI[of _ p'], intro conjI impI)
    show "transpose_pitch shift preferSharps p = Inr p'" by (rule g(1))
    show "find_step p' = Some (Some newLetter)" by (rule st)
  next
    assume "newAlteration = 0"
    from zero[OF this] show "filter is_alter p' = []" by (rule conjunct1)
  next
    assume "newAlteration = 0"
    from zero[OF this] show "find_alter p' = None" by (rule conjunct2)
  next
    assume h: "newAlteration \<noteq> 0 \<and> find_alter p = None"
    from ins[OF h] show "p' = Step (Some newLetter) # Alter (IntText newAlteration)
                    # set_octave (IntText (octave + (pc + shift) div 12)) cs" by blast
  next
    assume h: "newAlteration \<noteq> 0 \<and> find_alter p = None"
    from ins[OF h] show "find_octave (set_octave (IntText (octave + (pc + shift) div 12)) cs)
               = Some (IntText (octave + (pc + shift) div 12))" by blast
  next
    assume h: "newAlteration \<noteq> 0 \<and> find_alter p = None"
    from ins[OF h] show "filter is_alter p' = [Alter (IntText newAlteration)]" by blast
  next
    assume h: "newAlteration \<noteq> 0 \<and> find_alter p \<noteq> None"
    from over[OF h] show "find_alter p' = Some (IntText newAlteration)" by blast
  next
    assume h: "newAlteration \<noteq> 0 \<and> find_alter p \<noteq> None"
    from over[OF h] show "filter is_alter p' = [Alter (IntText newAlteration)]" by blast
  next
    assume h: "newAlteration \<noteq> 0 \<and> find_alter p \<noteq> None"
    from over[OF h] show "length p' = length p" by blast
  next
    assume "(pc + shift) mod 12 = 0"
    from c0[OF this] show "newLetter = ''C''" by (rule conjunct1)
  next
    assume "(pc + shift) mod 12 = 0"
    from c0[OF this] st show "find_step p' = Some (Some ''C'')" by simp
  next
    assume "(pc + shift) mod 12 = 0"
    from c0[OF this] have "newAlteration = 0" by (rule conjunct2)
    from zero[OF this] show "filter is_alter p' = []" by (rule conjunct1)
  qed
qed

text \<open>
  The note B flat 4 moved up by two semitones lands on class 0: it ends as the letter C
  in octave 5 with no \<^verbatim>\<open>alter\<close> child. The note B4 moved up by two semitones ends as
  C sharp 5, the new \<^verbatim>\<open>alter\<close> child between the letter and the octave.
\<close>

theorem alter_marker_maintained_witness:
  "single_alter [Step (Some ''B''), Alter (IntText (-1)), Octave (IntText 4)]
   \<and> read_pitch [Step (Some ''B''), Alter (IntText (-1)), Octave (IntText 4)] = Some (Some ''B'', -1, 4)
   \<and> note_to_chromatic (Some ''B'') (-1) = Inr 10
   \<and> chromatic_to_note ((10 + 2) mod 12) True = Inr (''C'', 0)
   \<and> transpose_pitch 2 True [Step (Some ''B''), Alter (IntText (-1)), Octave (IntText 4)]
       = Inr [Step (Some ''C''), Octave (IntText 5)]
   \<and> single_alter [Step (Some ''B''), Octave (IntText 4)]
   \<and> read_pitch [Step (Some ''B''), Octave (IntText 4)] = Some (Some ''B'', 0, 4)
   \<and> find_alter [Step (Some ''B''), Octave (IntText 4)] = None
   \<and> note_to_chromatic (Some ''B'') 0 = Inr 11
   \<and> chromatic_to_note ((11 + 2) mod 12) True = Inr (''C'', 1)
   \<and> transpose_pitch 2 True [Step (Some ''B''), Octave (IntText 4)]
       = Inr [Step (Some ''C''), Alter (IntText 1), Octave (IntText 5)]"
proof -
  let ?p = "[Step (Some ''B''), Alter (IntText (-1)), Octave (IntText 4)]"
  let ?q = "[Step (Some ''B''), Octave (IntText 4)]"
  have p: "?p = Step (Some ''B'') # [Alter (IntText (-1)), Octave (IntText 4)]" by simp
  have q: "?q = Step (Some ''B'') # [Octave (IntText 4)]" by simp
  have sp: "single_alter ?p" by (simp add: single_alter_def)
  have sq: "single_alter ?q" by (simp add: single_alter_def)
  have rp: "read_pitch ?p = Some (Some ''B'', -1, 4)"
    by (simp add: read_pitch_def current_alter_of_def py_int_def)
  have rq: "read_pitch ?q = Some (Some ''B'', 0, 4)"
    by (simp add: read_pitch_def current_alter_of_def py_int_def)
  have np: "note_to_chromatic (Some ''B'') (-1) = Inr 10"
    by (simp add: note_to_chromatic_def base_notes_def)
  have nq: "note_to_chromatic (Some ''B'') 0 = Inr 11"
    by (simp add: note_to_chromatic_def base_notes_def)
  have cp: "chromatic_to_note ((10 + 2) mod 12) True = Inr (''C'', 0)"
    by (simp add: chromatic_to_note_def naturals_def)
  have cq: "chromatic_to_note ((11 + 2) mod 12) True = Inr (''C'', 1)"
    by (simp add: chromatic_to_note_def naturals_def sharp_map_def)
  have fq: "find_alter ?q = None" by simp
  from alter_marker_maintained[OF p sp rp np cp] obtain p' where
    p': "transpose_pitch 2 True ?p = Inr p'" "filter is_alter p' = []" by auto
  from alter_marker_maintained[OF q sq rq nq cq] fq
  have tq: "transpose_pitch 2 True ?q = Inr [Step (Some ''C''), Alter (IntText 1), Octave (IntText 5)]"
    by auto
  have tp: "transpose_pitch 2 True ?p = Inr [Step (Some ''C''), Octave (IntText 5)]"
    by (simp add: transpose_pitch_def current_alter_of_def py_int_def note_to_chromatic_def
          base_notes_def chromatic_to_note_def naturals_def)
  from sp rp np cp tp sq rq fq nq cq tq show ?thesis by blast
qed

text \<open>
  Pitch elements whose children are not as the format has them are rewritten by the same
  steps: with the \<^verbatim>\<open>octave\<close> child before the \<^verbatim>\<open>step\<close> child the new \<^verbatim>\<open>alter\<close>
  child still goes to index 1, and of two \<^verbatim>\<open>alter\<close> children only the first is
  removed.
\<close>

lemma alter_marker_outside_format:
  "calculate_semitone_shift 0 7 = Inr 1
   \<and> transpose_pitch 1 (0 \<le> (7::int)) [Octave (IntText 4), Step (Some ''C'')]
       = Inr [Octave (IntText 4), Alter (IntText 1), Step (Some ''C'')]
   \<and> calculate_semitone_shift 0 0 = Inr 0
   \<and> transpose_pitch 0 (0 \<le> (0::int))
         [Step (Some ''C''), Alter (IntText 0), Alter (IntText 1), Octave (IntText 4)]
       = Inr [Step (Some ''C''), Alter (IntText 1), Octave (IntText 4)]"
  by (simp add: calculate_semitone_shift_def KEY_SIGNATURES_def key_alter_def
        transpose_pitch_def current_alter_of_def py_int_def note_to_chromatic_def
        base_notes_def chromatic_to_note_def naturals_def sharp_map_def insert_child_def)




section \<open>Properties of the transposition of a file\<close>

lemma transpose_musicxml_InrD:
  assumes "transpose_musicxml pl fs mf target outp = Inr (out, fs')"
  shows "\<exists>src sh tree tree'.
           key_signature mf = Some src \<and> KEY_SIGNATURES target \<noteq> None
         \<and> calculate_semitone_shift src target = Inr sh
         \<and> fs (file_path mf) = Some tree
         \<and> transpose_tree target sh (0 \<le> target) tree = Inr tree'
         \<and> (case outp of None \<Rightarrow> default_output_path pl (file_path mf) target = Inr out
                        | Some p \<Rightarrow> out = p)
         \<and> fs' = fs(out \<mapsto> tree')"
proof (cases "key_signature mf")
  case None
  with assms show ?thesis by (simp add: transpose_musicxml_def)
next
  case (Some src)
  show ?thesis
  proof (cases "KEY_SIGNATURES target = None")
    case True
    with assms Some show ?thesis by (simp add: transpose_musicxml_def)
  next
    case False
    show ?thesis
    proof (cases "calculate_semitone_shift src target")
      case (Inl e)
      with assms Some False show ?thesis by (auto simp: transpose_musicxml_def)
    next
      case (Inr sh)
      show ?thesis
      proof (cases "fs (file_path mf)")
        case None
        with assms Some False Inr show ?thesis by (auto simp: transpose_musicxml_def)
      next
        case tree: (Some tree)
        show ?thesis
        proof (cases "transpose_tree target sh (0 \<le> target) tree")
          case (Inl e)
          with assms Some False Inr tree show ?thesis by (auto simp: transpose_musicxml_def)
        next
          case tree': (Inr tree')
          with assms Some False Inr tree show ?thesis
            by (cases outp) (auto simp: transpose_musicxml_def split: sum.splits)
        qed
      qed
    qed
  qed
qed














lemma transpose_pitch_status:
  "map_sum id (\<lambda>x. ()) (transpose_pitch sh pf p) = map_sum id (\<lambda>x. ()) (transpose_pitch sh' pf' p)"
proof (cases "find_step p")
  case None
  then show ?thesis by (simp add: transpose_pitch_def)
next
  case step: (Some s)
  show ?thesis
  proof (cases "find_octave p")
    case None
    with step show ?thesis by (simp add: transpose_pitch_def)
  next
    case oct: (Some ot)
    show ?thesis
    proof (cases "current_alter_of (find_alter p)")
      case (Inl e)
      with step oct show ?thesis by (simp add: transpose_pitch_def)
    next
      case alt: (Inr a)
      show ?thesis
      proof (cases "py_int ot")
        case (Inl e)
        with step oct alt show ?thesis by (simp add: transpose_pitch_def)
      next
        case oc: (Inr oc)
        show ?thesis
        proof (cases "note_to_chromatic s a")
          case (Inl e)
          with step oct alt oc show ?thesis by (simp add: transpose_pitch_def)
        next
          case (Inr pc)
          from step oct alt oc have r: "read_pitch p = Some (s, a, oc)"
            by (simp add: read_pitch_def)
          from chromatic_to_note_Inr[of "(pc + sh) mod 12" pf] obtain l al where
            n: "chromatic_to_note ((pc + sh) mod 12) pf = Inr (l, al)" by blast
          from chromatic_to_note_Inr[of "(pc + sh') mod 12" pf'] obtain l' al' where
            n': "chromatic_to_note ((pc + sh') mod 12) pf' = Inr (l', al')" by blast
          from transpose_pitch_rewritten[OF r Inr n] transpose_pitch_rewritten[OF r Inr n']
          show ?thesis by simp
        qed
      qed
    qed
  qed
qed

lemma transpose_pitches_status:
  "map_sum id (\<lambda>x. ()) (transpose_pitches sh pf ps)
     = map_sum id (\<lambda>x. ()) (transpose_pitches sh' pf' ps)"
proof (induction ps)
  case Nil
  then show ?case by simp
next
  case (Cons p ps)
  from transpose_pitch_status[of sh pf p sh' pf'] Cons show ?case
    by (cases "transpose_pitch sh pf p"; cases "transpose_pitch sh' pf' p";
        cases "transpose_pitches sh pf ps"; cases "transpose_pitches sh' pf' ps"; simp)
qed

lemma transpose_tree_status:
  "map_sum id (\<lambda>x. ()) (transpose_tree t sh pf tree)
     = map_sum id (\<lambda>x. ()) (transpose_tree t' sh' pf' tree)"
  using transpose_pitches_status[of sh pf "pitch_elems tree" sh' pf']
  by (cases "transpose_pitches sh pf (pitch_elems tree)";
      cases "transpose_pitches sh' pf' (pitch_elems tree)"; simp add: transpose_tree_def)

lemma calculate_semitone_shift_status:
  assumes "KEY_SIGNATURES k1 \<noteq> None" and "KEY_SIGNATURES k2 \<noteq> None"
  shows "map_sum id (\<lambda>x. ()) (calculate_semitone_shift src k1)
       = map_sum id (\<lambda>x. ()) (calculate_semitone_shift src k2)"
proof (cases "KEY_SIGNATURES src")
  case None
  then show ?thesis by (simp add: calculate_semitone_shift_def)
next
  case (Some e)
  then have "KEY_SIGNATURES src \<noteq> None" by simp
  from calculate_semitone_shift_valid[OF this assms(1)]
    calculate_semitone_shift_valid[OF this assms(2)]
  show ?thesis by auto
qed

lemma default_output_path_letter:
  assumes "KEY_SIGNATURES k1 = Some (letter, kind1, count1)"
    and "KEY_SIGNATURES k2 = Some (letter, kind2, count2)"
  shows "default_output_path pl path k1 = default_output_path pl path k2"
  using assms by (simp add: default_output_path_def)

lemma transpose_musicxml_returned_path:
  assumes "KEY_SIGNATURES k1 = Some (letter, kind1, count1)"
    and "KEY_SIGNATURES k2 = Some (letter, kind2, count2)"
  shows "map_sum id fst (transpose_musicxml pl fs mf k1 None)
       = map_sum id fst (transpose_musicxml pl fs mf k2 None)"
proof (cases "key_signature mf")
  case None
  then show ?thesis by (simp add: transpose_musicxml_def)
next
  case (Some src)
  from assms have v: "KEY_SIGNATURES k1 \<noteq> None" "KEY_SIGNATURES k2 \<noteq> None" by simp_all
  from default_output_path_letter[OF assms]
  have d: "default_output_path pl (file_path mf) k1 = default_output_path pl (file_path mf) k2" .
  show ?thesis
  proof (cases "calculate_semitone_shift src k1")
    case (Inl e)
    with calculate_semitone_shift_status[OF v, of src]
    have "calculate_semitone_shift src k2 = Inl e"
      by (cases "calculate_semitone_shift src k2") simp_all
    with Inl Some v show ?thesis by (auto simp: transpose_musicxml_def)
  next
    case (Inr sh1)
    with calculate_semitone_shift_status[OF v, of src]
    obtain sh2 where sh2: "calculate_semitone_shift src k2 = Inr sh2"
      by (cases "calculate_semitone_shift src k2") simp_all
    show ?thesis
    proof (cases "fs (file_path mf)")
      case None
      with Some v Inr sh2 show ?thesis by (auto simp: transpose_musicxml_def)
    next
      case tree: (Some tree)
      from transpose_tree_status[of k1 sh1 "0 \<le> k1" tree k2 sh2 "0 \<le> k2"]
      have "(\<exists>e. transpose_tree k1 sh1 (0 \<le> k1) tree = Inl e
                \<and> transpose_tree k2 sh2 (0 \<le> k2) tree = Inl e)
          \<or> (\<exists>t1 t2. transpose_tree k1 sh1 (0 \<le> k1) tree = Inr t1
                \<and> transpose_tree k2 sh2 (0 \<le> k2) tree = Inr t2)"
        by (cases "transpose_tree k1 sh1 (0 \<le> k1) tree";
            cases "transpose_tree k2 sh2 (0 \<le> k2) tree"; simp)
      then show ?thesis
      proof (elim disjE exE conjE)
        fix e
        assume "transpose_tree k1 sh1 (0 \<le> k1) tree = Inl e"
          "transpose_tree k2 sh2 (0 \<le> k2) tree = Inl e"
        with Some v Inr sh2 tree show ?thesis by (auto simp: transpose_musicxml_def)
      next
        fix t1 t2
        assume "transpose_tree k1 sh1 (0 \<le> k1) tree = Inr t1"
          "transpose_tree k2 sh2 (0 \<le> k2) tree = Inr t2"
        with Some v Inr sh2 tree d show ?thesis
          by (cases "default_output_path pl (file_path mf) k2")
             (auto simp: transpose_musicxml_def)
      qed
    qed
  qed
qed

text \<open>
  Claim C9. With no output path given, two target keys whose table entries have the same
  tonic letter give the same outcome as far as the path goes: the same error or the same
  returned path. So when the same input is transposed to the one and then to the other,
  the second call returns the path of the first and stores its document there, in place
  of the first one's.
\<close>

theorem default_output_path_shared_by_tonic_letter:
  assumes "KEY_SIGNATURES k1 = Some (letter, kind1, count1)"
    and "KEY_SIGNATURES k2 = Some (letter, kind2, count2)"
  shows "map_sum id fst (transpose_musicxml pl fs music_file k1 None)
           = map_sum id fst (transpose_musicxml pl fs music_file k2 None)
       \<and> (transpose_musicxml pl fs music_file k1 None = Inr (out1, fs1)
            \<longrightarrow> transpose_musicxml pl fs1 music_file k2 None = Inr (out2, fs2)
            \<longrightarrow> out2 = out1 \<and> (\<exists>tree2. fs2 = fs1(out1 \<mapsto> tree2)))"
proof -
  have "out2 = out1 \<and> (\<exists>tree2. fs2 = fs1(out1 \<mapsto> tree2))"
    if r1: "transpose_musicxml pl fs music_file k1 None = Inr (out1, fs1)"
    and r2: "transpose_musicxml pl fs1 music_file k2 None = Inr (out2, fs2)"
  proof -
    from transpose_musicxml_InrD[OF r1]
    have o1: "default_output_path pl (file_path music_file) k1 = Inr out1" by auto
    from transpose_musicxml_InrD[OF r2] obtain tree2 where
      o2: "default_output_path pl (file_path music_file) k2 = Inr out2"
      and f2: "fs2 = fs1(out2 \<mapsto> tree2)" by auto
    from o1 o2 default_output_path_letter[OF assms, of pl "file_path music_file"]
    have "out2 = out1" by simp
    with f2 show ?thesis by blast
  qed
  with transpose_musicxml_returned_path[OF assms, of pl fs music_file] show ?thesis
    by blast
qed

text \<open>
  G major (fifths 1) and G flat major (fifths -6) share the letter G. For a file named
  \<^verbatim>\<open>a.xml\<close> in the current directory the stem is the name up to the dot and the new
  name replaces the whole path: both transpositions are written to
  \<^verbatim>\<open>a_transposed_to_G.xml\<close>, and the second replaces the first.
\<close>

theorem default_output_path_shared_by_tonic_letter_witness:
  "KEY_SIGNATURES 1 = Some (''G'', None, 1)
   \<and> KEY_SIGNATURES (-6) = Some (''G'', Some ''flat'', 6)
   \<and> transpose_musicxml \<lparr>stem = takeWhile (\<lambda>c. c \<noteq> CHR ''.''), with_name = (\<lambda>p n. n)\<rparr>
        [''a.xml'' \<mapsto> \<lparr>key_elems = [], pitch_elems = [[Step (Some ''C''), Octave (IntText 4)]]\<rparr>]
        \<lparr>file_path = ''a.xml'', key_signature = Some 0, time_signature = None, part_name = None\<rparr>
        1 None
      = Inr (''a_transposed_to_G.xml'',
          [''a.xml'' \<mapsto> \<lparr>key_elems = [], pitch_elems = [[Step (Some ''C''), Octave (IntText 4)]]\<rparr>,
           ''a_transposed_to_G.xml'' \<mapsto>
              \<lparr>key_elems = [], pitch_elems = [[Step (Some ''G''), Octave (IntText 4)]]\<rparr>])
   \<and> transpose_musicxml \<lparr>stem = takeWhile (\<lambda>c. c \<noteq> CHR ''.''), with_name = (\<lambda>p n. n)\<rparr>
          [''a.xml'' \<mapsto> \<lparr>key_elems = [], pitch_elems = [[Step (Some ''C''), Octave (IntText 4)]]\<rparr>,
           ''a_transposed_to_G.xml'' \<mapsto>
              \<lparr>key_elems = [], pitch_elems = [[Step (Some ''G''), Octave (IntText 4)]]\<rparr>]
        \<lparr>file_path = ''a.xml'', key_signature = Some 0, time_signature = None, part_name = None\<rparr>
        (-6) None
      = Inr (''a_transposed_to_G.xml'',
          [''a.xml'' \<mapsto> \<lparr>key_elems = [], pitch_elems = [[Step (Some ''C''), Octave (IntText 4)]]\<rparr>,
           ''a_transposed_to_G.xml'' \<mapsto>
              \<lparr>key_elems = [],
               pitch_elems = [[Step (Some ''G''), Alter (IntText (-1)), Octave (IntText 4)]]\<rparr>])"
proof -
  let ?pl = "\<lparr>stem = takeWhile (\<lambda>c. c \<noteq> CHR ''.''), with_name = (\<lambda>p n. n)\<rparr>"
  let ?T = "\<lparr>key_elems = [], pitch_elems = [[Step (Some ''C''), Octave (IntText 4)]]\<rparr>"
  let ?T1 = "\<lparr>key_elems = [], pitch_elems = [[Step (Some ''G''), Octave (IntText 4)]]\<rparr>"
  let ?T2 = "\<lparr>key_elems = [],
              pitch_elems = [[Step (Some ''G''), Alter (IntText (-1)), Octave (IntText 4)]]\<rparr>"
  let ?mf = "\<lparr>file_path = ''a.xml'', key_signature = Some 0, time_signature = None,
              part_name = None\<rparr>"
  have k1: "KEY_SIGNATURES 1 = Some (''G'', None, 1)" by (simp add: KEY_SIGNATURES_def)
  have k2: "KEY_SIGNATURES (-6) = Some (''G'', Some ''flat'', 6)"
    by (simp add: KEY_SIGNATURES_def)
  have run1: "transpose_musicxml ?pl [''a.xml'' \<mapsto> ?T] ?mf 1 None
      = Inr (''a_transposed_to_G.xml'', [''a.xml'' \<mapsto> ?T, ''a_transposed_to_G.xml'' \<mapsto> ?T1])"
    by (simp add: transpose_musicxml_def calculate_semitone_shift_def KEY_SIGNATURES_def
          key_alter_def transpose_tree_def transpose_pitch_def current_alter_of_def py_int_def
          note_to_chromatic_def base_notes_def chromatic_to_note_def naturals_def
          default_output_path_def)
  have run2: "transpose_musicxml ?pl [''a.xml'' \<mapsto> ?T, ''a_transposed_to_G.xml'' \<mapsto> ?T1] ?mf (-6) None
      = Inr (''a_transposed_to_G.xml'', [''a.xml'' \<mapsto> ?T, ''a_transposed_to_G.xml'' \<mapsto> ?T2])"
    by (simp add: transpose_musicxml_def calculate_semitone_shift_def KEY_SIGNATURES_def
          key_alter_def transpose_tree_def transpose_pitch_def current_alter_of_def py_int_def
          note_to_chromatic_def base_notes_def chromatic_to_note_def naturals_def flat_map_def
          insert_child_def default_output_path_def)
  from default_output_path_shared_by_tonic_letter[OF k1 k2, of ?pl "[''a.xml'' \<mapsto> ?T]" ?mf
      "''a_transposed_to_G.xml''" "[''a.xml'' \<mapsto> ?T, ''a_transposed_to_G.xml'' \<mapsto> ?T1]"
      "''a_transposed_to_G.xml''" "[''a.xml'' \<mapsto> ?T, ''a_transposed_to_G.xml'' \<mapsto> ?T2]"]
    run1 run2
  have "\<exists>tree2. [''a.xml'' \<mapsto> ?T, ''a_transposed_to_G.xml'' \<mapsto> ?T2]
          = [''a.xml'' \<mapsto> ?T, ''a_transposed_to_G.xml'' \<mapsto> ?T1](''a_transposed_to_G.xml'' \<mapsto> tree2)"
    by blast
  with k1 k2 run1 run2 show ?thesis by blast
qed

section \<open>The key checks\<close>

text \<open>
  The three ways in which a key makes the call fail, in the order of the source: no
  source key, a target key outside the table, a source key outside the table. The first
  two are the \<^verbatim>\<open>raise ValueError\<close> statements of lines 106--110; the third is the
  \<^verbatim>\<open>KeyError\<close> of the subscript \<^verbatim>\<open>KEY_SIGNATURES[from_key]\<close> in
  \<open>calculate_semitone_shift\<close>.
\<close>

lemma transpose_musicxml_no_source_key:
  "key_signature mf = None \<Longrightarrow> transpose_musicxml pl fs mf target outp = Inl ValueError_no_source_key"
  by (simp add: transpose_musicxml_def)

lemma transpose_musicxml_target_key:
  assumes "key_signature mf = Some src" and "\<not> (-7 \<le> target \<and> target \<le> 7)"
  shows "transpose_musicxml pl fs mf target outp = Inl (ValueError_target_key target)"
proof -
  from assms(2) KEY_SIGNATURES_dom[of target] have "KEY_SIGNATURES target = None" by blast
  with assms(1) show ?thesis by (simp add: transpose_musicxml_def)
qed

lemma transpose_musicxml_source_key_range:
  assumes "key_signature mf = Some src" and "-7 \<le> target \<and> target \<le> 7"
    and "\<not> (-7 \<le> src \<and> src \<le> 7)"
  shows "transpose_musicxml pl fs mf target outp = Inl (KeyError_key_signature src)"
proof -
  from assms(3) KEY_SIGNATURES_dom[of src] have s: "KEY_SIGNATURES src = None" by blast
  from assms(2) KEY_SIGNATURES_dom[of target] obtain e where t: "KEY_SIGNATURES target = Some e"
    by blast
  from s have "calculate_semitone_shift src target = Inl (KeyError_key_signature src)"
    by (simp add: calculate_semitone_shift_def)
  with assms(1) t show ?thesis by (simp add: transpose_musicxml_def)
qed

text \<open>
  Claim C3. The claim asks for one kind of failure, an invalid-key error, whenever the
  source key is absent or either key is outside -7..7. The code checks the presence of
  the source key and the range of the target key, each with a \<^verbatim>\<open>ValueError\<close> of its
  own, but never the range of the source key: a source key of 8 with target key 0 ends
  in the \<^verbatim>\<open>KeyError\<close> of the table lookup, which is no \<^verbatim>\<open>ValueError\<close>. The two
  calls that the claim names (no source key with target 2, source 0 with target 9) fail
  as it says.
\<close>

theorem source_key_out_of_range_is_KeyError:
  "transpose_musicxml pl fs
     \<lparr>file_path = ''a.xml'', key_signature = Some 8, time_signature = None, part_name = None\<rparr>
     0 None = Inl (KeyError_key_signature 8)
   \<and> \<not> is_ValueError (KeyError_key_signature 8)
   \<and> transpose_musicxml pl fs
     \<lparr>file_path = ''a.xml'', key_signature = None, time_signature = None, part_name = None\<rparr>
     2 None = Inl ValueError_no_source_key
   \<and> transpose_musicxml pl fs
     \<lparr>file_path = ''a.xml'', key_signature = Some 0, time_signature = None, part_name = None\<rparr>
     9 None = Inl (ValueError_target_key 9)"
  by (simp add: transpose_musicxml_def calculate_semitone_shift_def KEY_SIGNATURES_def)

section \<open>Pitch elements without a letter or an octave\<close>








end
